theory Spec2Isabelle
  imports Main "HOL-Library.Word" "HOL-Library.Sublist"
begin

section \<open>Data model of server.cjs\<close>

text \<open>
  A JavaScript string is a sequence of UTF-16 code units; a Buffer is a sequence of bytes.
  \<open>js\<close> writes an ASCII literal of the source as code units.
\<close>

type_synonym js_string = "16 word list"
type_synonym bytes = "8 word list"

definition js :: "string \<Rightarrow> js_string" where
  "js s = map of_char s"

text \<open>
  The object \<open>metadata\<close> of a text entry starts as \<open>{}\<close>; a field that was never assigned
  is \<open>None\<close>.
\<close>

record link_metadata =
  hasLinks :: "bool option"
  firstUrl :: "js_string option"

definition empty_metadata :: link_metadata where
  "empty_metadata = \<lparr>hasLinks = None, firstUrl = None\<rparr>"

text \<open>
  The two object shapes held in \<open>sharedContent\<close>: \<open>fileData\<close> (\<open>type: 'file'\<close>) and
  \<open>contentData\<close> (\<open>type: 'text'\<close>). The field \<open>buffer\<close> is optional because
  \<open>delete clientData.buffer\<close> removes it from the copy that is broadcast.
\<close>

datatype content_type = File | Text

datatype shared_content =
    FileData (id': js_string) (filename: js_string) (mimetype: js_string) (size': nat)
      (buffer: "bytes option") (uploadedAt: int) (expiresAt: int) (downloadUrl: js_string)
  | TextData (id': js_string) (content: js_string) (processedContent: js_string)
      (metadata: link_metadata) (sharedAt: int) (expiresAt: int)

fun type' :: "shared_content \<Rightarrow> content_type" where
  "type' (FileData i fn mt sz b up ex dl) = File"
| "type' (TextData i c pc md sh ex) = Text"

text \<open>\<open>req.file\<close> as multer's memory storage hands it to the upload handler.\<close>

record req_file =
  originalname :: js_string
  file_mimetype :: js_string
  file_size :: nat
  file_buffer :: bytes

subsection \<open>The JavaScript Map and Set\<close>

text \<open>
  A \<open>Map\<close> iterates in insertion order, so it is an association list, oldest key first.
  \<open>Map.set\<close> replaces the value of a key that is present where it stands and appends a
  new key; \<open>Map.delete\<close> removes the key. A \<open>Set\<close> is a list without repetition.
\<close>

type_synonym 'v js_map = "(js_string \<times> 'v) list"

fun map_get :: "'v js_map \<Rightarrow> js_string \<Rightarrow> 'v option" where
  "map_get [] k = None"
| "map_get ((k', v) # m) k = (if k' = k then Some v else map_get m k)"

fun map_set :: "js_string \<Rightarrow> 'v \<Rightarrow> 'v js_map \<Rightarrow> 'v js_map" where
  "map_set k v [] = [(k, v)]"
| "map_set k v ((k', v') # m) = (if k' = k then (k, v) # m else (k', v') # map_set k v m)"

fun map_delete :: "js_string \<Rightarrow> 'v js_map \<Rightarrow> 'v js_map" where
  "map_delete k [] = []"
| "map_delete k ((k', v') # m) = (if k' = k then map_delete k m else (k', v') # map_delete k m)"

definition map_values :: "'v js_map \<Rightarrow> 'v list" where
  "map_values m = map snd m"

definition map_keys :: "'v js_map \<Rightarrow> js_string list" where
  "map_keys m = map fst m"

definition set_add :: "js_string \<Rightarrow> js_string list \<Rightarrow> js_string list" where
  "set_add x xs = (if x \<in> set xs then xs else xs @ [x])"

definition set_delete :: "js_string \<Rightarrow> js_string list \<Rightarrow> js_string list" where
  "set_delete x xs = filter (\<lambda>y. y \<noteq> x) xs"

subsection \<open>Server state and observable effects\<close>

text \<open>
  The messages of the push channel, and the effects of a handler in the order in which
  the handler performs them: writes to \<open>sharedContent\<close> and emissions. \<open>socket.emit\<close>
  addresses one socket. \<open>io.emit\<close> addresses every socket connected at that moment; the
  server mirrors that registry in \<open>connectedClients\<close> (a socket is added at the start of
  the connection handler and deleted at the start of the disconnect handler), so the
  effect records \<open>connectedClients\<close> as the addressees.
\<close>

datatype event =
    NewContent shared_content
  | ContentRemoved js_string
  | InitialContent "shared_content list"
  | ClientCount nat

datatype effect =
    MapSet js_string
  | MapDelete js_string
  | SocketEmit js_string event
  | IoEmit "js_string list" event

record server_state =
  sharedContent :: "shared_content js_map"
  connectedClients :: "js_string list"
  effects :: "effect list"

definition initial_state :: server_state where
  "initial_state = \<lparr>sharedContent = [], connectedClients = [], effects = []\<rparr>"

definition store_set :: "js_string \<Rightarrow> shared_content \<Rightarrow> server_state \<Rightarrow> server_state" where
  "store_set k v s =
     s\<lparr>sharedContent := map_set k v (sharedContent s), effects := effects s @ [MapSet k]\<rparr>"

definition store_delete :: "js_string \<Rightarrow> server_state \<Rightarrow> server_state" where
  "store_delete k s =
     s\<lparr>sharedContent := map_delete k (sharedContent s), effects := effects s @ [MapDelete k]\<rparr>"

definition io_emit :: "event \<Rightarrow> server_state \<Rightarrow> server_state" where
  "io_emit ev s = s\<lparr>effects := effects s @ [IoEmit (connectedClients s) ev]\<rparr>"

definition socket_emit :: "js_string \<Rightarrow> event \<Rightarrow> server_state \<Rightarrow> server_state" where
  "socket_emit sid ev s = s\<lparr>effects := effects s @ [SocketEmit sid ev]\<rparr>"

text \<open>
  A response header is a name with the value handed to \<open>res.set\<close>, a string or a number.
  What a handler answers: \<open>res.status(n).json({error})\<close>, the two success bodies, and
  the file sent by the download route: the headers as \<open>res.set\<close> left them and the body
  given to \<open>res.send\<close>.
\<close>

datatype header_value = HeaderString js_string | HeaderNumber nat

type_synonym header = "string \<times> header_value"

datatype response =
    ErrorJson nat string
  | UploadJson js_string js_string int
  | ShareJson js_string int
  | SendFile "header list" "bytes option"

section \<open>Handlers\<close>

subsection \<open>Content expiration cleanup (the interval callback)\<close>

text \<open>
  The loop visits the entries of the Map in insertion order and deletes the entry it
  stands on when \<open>now > content.expiresAt\<close>, emitting \<open>contentRemoved\<close> right after.
\<close>

fun cleanup_loop :: "int \<Rightarrow> shared_content js_map \<Rightarrow> server_state \<Rightarrow> server_state" where
  "cleanup_loop now [] s = s"
| "cleanup_loop now ((k, c) # rest) s =
     (if now > expiresAt c
      then cleanup_loop now rest (io_emit (ContentRemoved k) (store_delete k s))
      else cleanup_loop now rest s)"

definition cleanup :: "int \<Rightarrow> server_state \<Rightarrow> server_state" where
  "cleanup now s = cleanup_loop now (sharedContent s) s"

subsection \<open>Socket connection and disconnection\<close>

definition connection :: "js_string \<Rightarrow> server_state \<Rightarrow> server_state" where
  "connection sid s =
     (let s1 = s\<lparr>connectedClients := set_add sid (connectedClients s)\<rparr>;
          currentContent = map_values (sharedContent s1);
          s2 = socket_emit sid (InitialContent currentContent) s1
      in io_emit (ClientCount (length (connectedClients s2))) s2)"

definition disconnect :: "js_string \<Rightarrow> server_state \<Rightarrow> server_state" where
  "disconnect sid s =
     (let s1 = s\<lparr>connectedClients := set_delete sid (connectedClients s)\<rparr>
      in io_emit (ClientCount (length (connectedClients s1))) s1)"

subsection \<open>POST /api/upload\<close>

text \<open>\<open>{ ...fileData }\<close> followed by \<open>delete clientData.buffer\<close>.\<close>

fun delete_buffer :: "shared_content \<Rightarrow> shared_content" where
  "delete_buffer (FileData i fn mt sz b up ex dl) = FileData i fn mt sz None up ex dl"
| "delete_buffer (TextData i c pc md sh ex) = TextData i c pc md sh ex"

text \<open>
  \<open>now1\<close> and \<open>now2\<close> are the two readings of \<open>Date.now()\<close> (for \<open>expiresAt\<close>, then for
  \<open>uploadedAt\<close>), \<open>uuid\<close> is the value of \<open>uuidv4()\<close>.
\<close>

definition upload ::
  "int \<Rightarrow> int \<Rightarrow> js_string \<Rightarrow> req_file option \<Rightarrow> server_state \<Rightarrow> response \<times> server_state" where
  "upload now1 now2 uuid file s =
     (case file of
        None \<Rightarrow> (ErrorJson 400 ''No file uploaded'', s)
      | Some f \<Rightarrow>
          (let fileId = uuid;
               expires = now1 + 10 * 60 * 1000;
               fileData = FileData fileId (originalname f) (file_mimetype f) (file_size f)
                            (Some (file_buffer f)) now2 expires (js ''/api/download/'' @ fileId);
               s1 = store_set fileId fileData s;
               clientData = delete_buffer fileData;
               s2 = io_emit (NewContent clientData) s1
           in (UploadJson fileId (downloadUrl fileData) expires, s2)))"

subsection \<open>GET /api/download/:fileId\<close>

text \<open>
  The object given to \<open>res.set\<close>: Content-Type, Content-Disposition with the file name
  between double quotes (code unit 0x22), Content-Length.
\<close>

definition download_headers :: "shared_content \<Rightarrow> header list" where
  "download_headers fileData =
     [(''Content-Type'', HeaderString (mimetype fileData)),
      (''Content-Disposition'',
         HeaderString (js ''attachment; filename='' @ [0x22] @ filename fileData @ [0x22])),
      (''Content-Length'', HeaderNumber (size' fileData))]"

text \<open>
  \<open>res_set\<close> is the method \<open>res.set\<close> of the response object that the route is called
  with. It belongs to Express and Node, not to this repository: it may rewrite a value (a
  charset is appended to a text Content-Type) and it throws on a value that is not a
  legal header (\<open>None\<close>); the handler's \<open>catch\<close> then answers 500 "Download failed".
\<close>

definition download ::
  "(header list \<Rightarrow> header list option) \<Rightarrow> int \<Rightarrow> js_string \<Rightarrow> server_state \<Rightarrow>
   response \<times> server_state" where
  "download res_set now fileId s =
     (case map_get (sharedContent s) fileId of
        None \<Rightarrow> (ErrorJson 404 ''File not found'', s)
      | Some fileData \<Rightarrow>
          if type' fileData \<noteq> File then (ErrorJson 404 ''File not found'', s)
          else if now > expiresAt fileData
          then (ErrorJson 410 ''File has expired'', store_delete fileId s)
          else
            (case res_set (download_headers fileData) of
               None \<Rightarrow> (ErrorJson 500 ''Download failed'', s)
             | Some headers \<Rightarrow> (SendFile headers (buffer fileData), s)))"

subsection \<open>POST /api/share-text\<close>

text \<open>
  The class \<open>\s\<close> of a regular expression and the characters removed by \<open>trim\<close> are the
  same: the white space and line terminator code units of ECMAScript.
\<close>

definition is_space :: "16 word \<Rightarrow> bool" where
  "is_space c =
     (c = 0x09 \<or> c = 0x0A \<or> c = 0x0B \<or> c = 0x0C \<or> c = 0x0D \<or> c = 0x20 \<or> c = 0xA0 \<or>
      c = 0x1680 \<or> (0x2000 \<le> c \<and> c \<le> 0x200A) \<or> c = 0x2028 \<or> c = 0x2029 \<or>
      c = 0x202F \<or> c = 0x205F \<or> c = 0x3000 \<or> c = 0xFEFF)"

definition trim :: "js_string \<Rightarrow> js_string" where
  "trim t = rev (dropWhile is_space (rev (dropWhile is_space t)))"

text \<open>
  \<open>/(https?:\/\/[^\s]+)/g\<close>. \<open>url_at\<close> is a match that starts at the head of the input:
  \<open>http\<close>, then \<open>s\<close> if the rest matches with it and otherwise without it, then \<open>://\<close>
  and the longest non-empty run of code units outside \<open>\s\<close>. \<open>match_from\<close> is the global
  search of \<open>String.match\<close>: it moves along the text, and after a match it resumes behind
  it (\<open>skip\<close> counts the code units of the last match still to pass). \<open>string_match\<close> is
  \<open>null\<close> (\<open>None\<close>) when nothing matches.
\<close>

definition strip_prefix :: "js_string \<Rightarrow> js_string \<Rightarrow> js_string option" where
  "strip_prefix p cs = (if take (length p) cs = p then Some (drop (length p) cs) else None)"

definition url_tail :: "js_string \<Rightarrow> js_string option" where
  "url_tail cs =
     (case strip_prefix (js ''://'') cs of
        None \<Rightarrow> None
      | Some r \<Rightarrow>
          (let run = takeWhile (\<lambda>c. \<not> is_space c) r
           in if run = [] then None else Some (js ''://'' @ run)))"

definition url_at :: "js_string \<Rightarrow> js_string option" where
  "url_at cs =
     (case strip_prefix (js ''http'') cs of
        None \<Rightarrow> None
      | Some r \<Rightarrow>
          (case (case strip_prefix (js ''s'') r of None \<Rightarrow> None | Some r' \<Rightarrow> url_tail r') of
             Some t \<Rightarrow> Some (js ''https'' @ t)
           | None \<Rightarrow>
               (case url_tail r of None \<Rightarrow> None | Some t \<Rightarrow> Some (js ''http'' @ t))))"

fun match_from :: "nat \<Rightarrow> js_string \<Rightarrow> js_string list" where
  "match_from skip [] = []"
| "match_from (Suc skip) (c # cs) = match_from skip cs"
| "match_from 0 (c # cs) =
     (case url_at (c # cs) of
        Some u \<Rightarrow> u # match_from (length u - 1) cs
      | None \<Rightarrow> match_from 0 cs)"

definition string_match :: "js_string \<Rightarrow> js_string list option" where
  "string_match text = (let ms = match_from 0 text in if ms = [] then None else Some ms)"

text \<open>The block "Extract URL for preview": \<open>metadata\<close> after it.\<close>

definition extract_url :: "js_string \<Rightarrow> link_metadata" where
  "extract_url text =
     (case string_match text of
        None \<Rightarrow> empty_metadata
      | Some urls \<Rightarrow>
          if length urls > 0
          then empty_metadata\<lparr>hasLinks := Some True, firstUrl := Some (hd urls)\<rparr>
          else empty_metadata)"

text \<open>
  \<open>text\<close> and \<open>ty\<close> are the fields \<open>text\<close> and \<open>type\<close> of the request body (\<open>None\<close> when
  the field is missing; \<open>type\<close> then defaults to \<open>'text'\<close>). \<open>marked\<close> is the markdown
  renderer, \<open>None\<close> when it throws: the handler's \<open>catch\<close> then answers 500.
\<close>

definition share_text ::
  "(js_string \<Rightarrow> js_string option) \<Rightarrow> int \<Rightarrow> int \<Rightarrow> js_string \<Rightarrow> js_string option \<Rightarrow>
   js_string option \<Rightarrow> server_state \<Rightarrow> response \<times> server_state" where
  "share_text marked now1 now2 uuid text_field ty s =
     (case text_field of
        None \<Rightarrow> (ErrorJson 400 ''Text content is required'', s)
      | Some text \<Rightarrow>
          if text = [] \<or> length (trim text) = 0
          then (ErrorJson 400 ''Text content is required'', s)
          else
            (let type_field = (case ty of None \<Rightarrow> js ''text'' | Some t \<Rightarrow> t);
                 contentId = uuid;
                 expires = now1 + 10 * 60 * 1000;
                 rendered = (if type_field = js ''markdown'' then marked text else Some text)
             in case rendered of
                  None \<Rightarrow> (ErrorJson 500 ''Failed to share text'', s)
                | Some processed \<Rightarrow>
                    (let contentData = TextData contentId text processed (extract_url text)
                                         now2 expires;
                         s1 = store_set contentId contentData s;
                         s2 = io_emit (NewContent contentData) s1
                     in (ShareJson contentId expires, s2))))"

subsection \<open>The server as a whole\<close>

text \<open>
  Node runs one handler at a time and none of the handlers above waits, so the server is
  the sequence of the requests, socket events and timer ticks it handles.
\<close>

datatype request =
    Upload int int js_string "req_file option"
  | ShareText int int js_string "js_string option" "js_string option"
  | Download "header list \<Rightarrow> header list option" int js_string
  | Connection js_string
  | Disconnect js_string
  | CleanupTick int

fun handle :: "(js_string \<Rightarrow> js_string option) \<Rightarrow> request \<Rightarrow> server_state \<Rightarrow> server_state" where
  "handle marked (Upload now1 now2 uuid file) s = snd (upload now1 now2 uuid file s)"
| "handle marked (ShareText now1 now2 uuid text_field ty) s =
     snd (share_text marked now1 now2 uuid text_field ty s)"
| "handle marked (Download res_set now fileId) s = snd (download res_set now fileId s)"
| "handle marked (Connection sid) s = connection sid s"
| "handle marked (Disconnect sid) s = disconnect sid s"
| "handle marked (CleanupTick now) s = cleanup now s"

fun run :: "(js_string \<Rightarrow> js_string option) \<Rightarrow> request list \<Rightarrow> server_state \<Rightarrow> server_state" where
  "run marked [] s = s"
| "run marked (r # rs) s = run marked rs (handle marked r s)"

subsection \<open>Auxiliary notions and sample values\<close>

text \<open>The keys of the entries that a cleanup at \<open>now\<close> deletes, in the order of the Map.\<close>

definition expired_keys :: "int \<Rightarrow> shared_content js_map \<Rightarrow> js_string list" where
  "expired_keys now m = map fst (filter (\<lambda>(k, c). expiresAt c < now) m)"

definition sample_text :: shared_content where
  "sample_text = TextData (js ''t1'') (js ''hi'') (js ''hi'') empty_metadata 0 600000"

definition sample_file :: shared_content where
  "sample_file = FileData (js ''f1'') (js ''a.txt'') (js ''text/plain'') 3 (Some [1, 2, 3])
     600010 1200010 (js ''/api/download/f1'')"

definition sample_upload :: req_file where
  "sample_upload = \<lparr>originalname = js ''a.txt'', file_mimetype = js ''text/plain'',
     file_size = 3, file_buffer = [1, 2, 3]\<rparr>"

text \<open>A store holding the text entry (inserted first) and the file entry, one observer.\<close>

definition sample_state :: server_state where
  "sample_state = \<lparr>sharedContent = [(js ''t1'', sample_text), (js ''f1'', sample_file)],
     connectedClients = [js ''c1''], effects = []\<rparr>"

text \<open>
  The order of effects. \<open>announced e\<close> is the write to the store that a broadcast \<open>e\<close>
  announces; \<open>written_before prev es\<close> says that every such broadcast in \<open>es\<close> comes
  directly after that write (\<open>prev\<close> is the effect before \<open>es\<close>). \<open>replay_keys\<close> replays
  the writes recorded in a sequence of effects on a set of keys. \<open>extends s s'\<close>: the
  effects of \<open>s'\<close> continue those of \<open>s\<close> in that order, sockets are sent snapshots only,
  and the keys of the store are those the recorded writes give.
\<close>

fun announced :: "effect \<Rightarrow> effect option" where
  "announced (IoEmit cs (NewContent c)) = Some (MapSet (id' c))"
| "announced (IoEmit cs (ContentRemoved k)) = Some (MapDelete k)"
| "announced e = None"

fun written_before :: "effect option \<Rightarrow> effect list \<Rightarrow> bool" where
  "written_before prev [] = True"
| "written_before prev (e # es) =
     ((announced e = None \<or> announced e = prev) \<and> written_before (Some e) es)"

fun socket_emits_snapshot :: "effect \<Rightarrow> bool" where
  "socket_emits_snapshot (SocketEmit sid (InitialContent l)) = True"
| "socket_emits_snapshot (SocketEmit sid ev) = False"
| "socket_emits_snapshot e = True"

fun replay_keys :: "effect list \<Rightarrow> js_string set \<Rightarrow> js_string set" where
  "replay_keys [] K = K"
| "replay_keys (MapSet k # es) K = replay_keys es (insert k K)"
| "replay_keys (MapDelete k # es) K = replay_keys es (K - {k})"
| "replay_keys (e # es) K = replay_keys es K"

definition extends :: "server_state \<Rightarrow> server_state \<Rightarrow> bool" where
  "extends s s' =
     (let d = drop (length (effects s)) (effects s')
      in effects s' = effects s @ d \<and> written_before None d \<and>
         list_all socket_emits_snapshot d \<and>
         set (map_keys (sharedContent s')) = replay_keys d (set (map_keys (sharedContent s))))"

subsection \<open>The link scan as the specification words it\<close>

text \<open>
  These three definitions follow the specification, not the source: a URL is \<open>http://\<close>
  or \<open>https://\<close> followed by one or more code units that are not white space; the first
  URL of a text is the first of its substrings, taken by start from left to right and
  from each start the longest first, that is a URL; the link metadata is \<open>hasLinks\<close> and
  \<open>firstUrl\<close> when there is one and the empty object when there is none.
\<close>

definition spec_url_pattern :: "js_string \<Rightarrow> bool" where
  "spec_url_pattern u =
     ((take 7 u = js ''http://'' \<and> drop 7 u \<noteq> [] \<and> list_all (\<lambda>c. \<not> is_space c) (drop 7 u)) \<or>
      (take 8 u = js ''https://'' \<and> drop 8 u \<noteq> [] \<and> list_all (\<lambda>c. \<not> is_space c) (drop 8 u)))"

definition spec_first_url :: "js_string \<Rightarrow> js_string option" where
  "spec_first_url text =
     find spec_url_pattern (concat (map (\<lambda>s. rev (prefixes s)) (rev (suffixes text))))"

definition spec_link_metadata :: "js_string \<Rightarrow> link_metadata" where
  "spec_link_metadata text =
     (case spec_first_url text of
        None \<Rightarrow> empty_metadata
      | Some u \<Rightarrow> \<lparr>hasLinks = Some True, firstUrl = Some u\<rparr>)"

text \<open>
  A stand-in for \<open>res.set\<close>, for the sample runs, after Express over Node: it throws when
  a string value has a code unit other than tab, 0x20 to 0x7E and 0x80 to 0xFF, and it
  appends a charset to a Content-Type that begins with \<open>text/\<close> and has no parameter.
\<close>

definition header_char_ok :: "16 word \<Rightarrow> bool" where
  "header_char_ok c = (c = 0x09 \<or> (0x20 \<le> c \<and> c \<le> 0x7E) \<or> (0x80 \<le> c \<and> c \<le> 0xFF))"

fun header_value_ok :: "header \<Rightarrow> bool" where
  "header_value_ok (name, HeaderString t) = list_all header_char_ok t"
| "header_value_ok (name, HeaderNumber n) = True"

fun add_charset :: "header \<Rightarrow> header" where
  "add_charset (name, HeaderString t) =
     (if name = ''Content-Type'' \<and> take 5 t = js ''text/'' \<and> 0x3B \<notin> set t
      then (name, HeaderString (t @ js ''; charset=utf-8''))
      else (name, HeaderString t))"
| "add_charset (name, HeaderNumber n) = (name, HeaderNumber n)"

definition sample_res_set :: "header list \<Rightarrow> header list option" where
  "sample_res_set hs = (if list_all header_value_ok hs then Some (map add_charset hs) else None)"


text \<open>A stand-in for the markdown renderer, for the sample runs.\<close>

definition sample_marked :: "js_string \<Rightarrow> js_string option" where
  "sample_marked t = Some (js ''<p>'' @ t @ js ''</p>'')"

section \<open>Properties\<close>

subsection \<open>Map operations\<close>

lemma map_get_map_set_same: "map_get (map_set k v m) k = Some v"
  by (induction m) auto


lemma map_delete_filter: "map_delete k m = filter (\<lambda>(k', v). k' \<noteq> k) m"
  by (induction m) auto

lemma map_set_fresh: "k \<notin> set (map_keys m) \<Longrightarrow> map_set k v m = m @ [(k, v)]"
  by (induction m) (auto simp: map_keys_def)

lemma distinct_keys_filter:
  assumes "distinct (map fst m)"
  shows "filter (\<lambda>(k, c). k \<notin> fst ` {p \<in> set m. P p}) m = filter (\<lambda>p. \<not> P p) m"
proof (rule filter_cong [OF refl])
  fix p assume pm: "p \<in> set m"
  obtain k c where p: "p = (k, c)" by (cases p)
  have "k \<in> fst ` {p \<in> set m. P p} \<longleftrightarrow> P p"
  proof
    assume "k \<in> fst ` {p \<in> set m. P p}"
    then obtain q where q: "q \<in> set m" "P q" "fst q = k" by auto
    with assms pm p have "q = p" by (metis eq_key_imp_eq_value prod.collapse fst_conv)
    with q show "P p" by simp
  next
    assume "P p" with pm p show "k \<in> fst ` {p \<in> set m. P p}" by force
  qed
  then show "(case p of (k, c) \<Rightarrow> k \<notin> fst ` {p \<in> set m. P p}) = (\<not> P p)" using p by simp
qed

subsection \<open>The cleanup\<close>

lemma cleanup_loop_clients: "connectedClients (cleanup_loop now es s) = connectedClients s"
  by (induction es arbitrary: s) (auto simp: io_emit_def store_delete_def)

lemma cleanup_loop_store:
  "sharedContent (cleanup_loop now es s) =
     filter (\<lambda>(k, c). k \<notin> set (expired_keys now es)) (sharedContent s)"
proof (induction es arbitrary: s)
  case Nil
  then show ?case by (simp add: expired_keys_def)
next
  case (Cons p es)
  obtain k c where p: "p = (k, c)" by (cases p)
  show ?case
  proof (cases "expiresAt c < now")
    case True
    have "sharedContent (cleanup_loop now (p # es) s) =
        filter (\<lambda>(k', c'). k' \<notin> set (expired_keys now es)) (map_delete k (sharedContent s))"
      using True p Cons.IH [of "io_emit (ContentRemoved k) (store_delete k s)"]
      by (simp add: io_emit_def store_delete_def)
    also have "\<dots> = filter (\<lambda>(k', c'). k' \<notin> set (expired_keys now (p # es))) (sharedContent s)"
      using True p by (auto simp: map_delete_filter expired_keys_def intro!: filter_cong)
    finally show ?thesis .
  next
    case False
    then show ?thesis using p Cons.IH [of s] by (simp add: expired_keys_def)
  qed
qed

lemma cleanup_loop_effects:
  "effects (cleanup_loop now es s) =
     effects s @ concat (map (\<lambda>k. [MapDelete k, IoEmit (connectedClients s) (ContentRemoved k)])
                          (expired_keys now es))"
proof (induction es arbitrary: s)
  case Nil
  then show ?case by (simp add: expired_keys_def)
next
  case (Cons p es)
  obtain k c where p: "p = (k, c)" by (cases p)
  show ?case
    using p Cons.IH [of "io_emit (ContentRemoved k) (store_delete k s)"] Cons.IH [of s]
    by (simp add: expired_keys_def io_emit_def store_delete_def)
qed

lemma cleanup_loop_none_expired:
  "expired_keys now es = [] \<Longrightarrow> cleanup_loop now es s = s"
proof (induction es arbitrary: s)
  case Nil
  then show ?case by simp
next
  case (Cons p es)
  obtain k c where p: "p = (k, c)" by (cases p)
  from Cons.prems p have "\<not> expiresAt c < now" "expired_keys now es = []"
    by (auto simp: expired_keys_def split: if_splits)
  then show ?case using p Cons.IH by simp
qed

lemma expired_keys_after_cleanup:
  "expired_keys now (sharedContent (cleanup now s)) = []"
  unfolding cleanup_def cleanup_loop_store
  by (auto simp: expired_keys_def filter_empty_conv intro: rev_image_eqI)

text \<open>
  C5 (as amended). The comparison of the loop is \<open>now > content.expiresAt\<close>: a cleanup at
  \<open>now\<close> deletes exactly the entries with \<open>expiresAt < now\<close>, keeps the others in their
  order, and emits \<open>contentRemoved\<close> for exactly the deleted keys, each right after its
  deletion, in the order of the Map. An entry with \<open>expiresAt = now\<close> stays.
\<close>

theorem cleanup_removes_exactly:
  assumes "distinct (map_keys (sharedContent s))"
  shows "sharedContent (cleanup now s) = filter (\<lambda>(k, c). \<not> expiresAt c < now) (sharedContent s)
    \<and> effects (cleanup now s) = effects s @
        concat (map (\<lambda>(k, c). [MapDelete k, IoEmit (connectedClients s) (ContentRemoved k)])
                 (filter (\<lambda>(k, c). expiresAt c < now) (sharedContent s)))
    \<and> connectedClients (cleanup now s) = connectedClients s"
proof -
  have "sharedContent (cleanup now s) =
      filter (\<lambda>(k, c). k \<notin> fst ` {p \<in> set (sharedContent s). (\<lambda>(k, c). expiresAt c < now) p})
        (sharedContent s)"
    by (simp add: cleanup_def cleanup_loop_store expired_keys_def)
  also have "\<dots> = filter (\<lambda>p. \<not> (\<lambda>(k, c). expiresAt c < now) p) (sharedContent s)"
    using assms by (intro distinct_keys_filter) (simp add: map_keys_def)
  also have "\<dots> = filter (\<lambda>(k, c). \<not> expiresAt c < now) (sharedContent s)"
    by (intro filter_cong) auto
  finally have store: "sharedContent (cleanup now s) =
      filter (\<lambda>(k, c). \<not> expiresAt c < now) (sharedContent s)" .
  have eff: "effects (cleanup now s) = effects s @
        concat (map (\<lambda>(k, c). [MapDelete k, IoEmit (connectedClients s) (ContentRemoved k)])
                 (filter (\<lambda>(k, c). expiresAt c < now) (sharedContent s)))"
    by (simp add: cleanup_def cleanup_loop_effects expired_keys_def comp_def case_prod_unfold)
  show ?thesis using store eff by (simp add: cleanup_def cleanup_loop_clients)
qed

theorem cleanup_removes_exactly_witness:
  "distinct (map_keys (sharedContent sample_state))
   \<and> sharedContent (cleanup 600001 sample_state) = [(js ''f1'', sample_file)]
   \<and> effects (cleanup 600001 sample_state) =
       [MapDelete (js ''t1''), IoEmit [js ''c1''] (ContentRemoved (js ''t1''))]
   \<and> connectedClients (cleanup 600001 sample_state) = [js ''c1'']"
proof -
  have d: "distinct (map_keys (sharedContent sample_state))"
    by (simp add: sample_state_def map_keys_def js_def)
  show ?thesis
    using d cleanup_removes_exactly [OF d, of 600001]
    by (simp add: sample_state_def sample_text_def sample_file_def)
qed

text \<open>
  The claim as stated (removal when \<open>expiresAt <= now\<close>) fails at the boundary: the text
  entry expires at 600000 and a cleanup at 600000 leaves it in the store and emits
  nothing.
\<close>

theorem cleanup_boundary_counterexample:
  "expiresAt sample_text \<le> 600000
   \<and> sharedContent (cleanup 600000 sample_state) = sharedContent sample_state
   \<and> map_get (sharedContent (cleanup 600000 sample_state)) (js ''t1'') = Some sample_text
   \<and> effects (cleanup 600000 sample_state) = []"
  by (simp add: cleanup_def sample_state_def sample_text_def sample_file_def)

text \<open>
  C7. A second cleanup at the same \<open>now\<close> changes nothing: it deletes no entry and emits
  no \<open>contentRemoved\<close>, so the state (store, observers and effects) is the one the first
  cleanup left.
\<close>

theorem cleanup_idempotent: "cleanup now (cleanup now s) = cleanup now s"
  using cleanup_loop_none_expired [OF expired_keys_after_cleanup, of now s "cleanup now s"]
  by (simp add: cleanup_def)

subsection \<open>Connection and disconnection\<close>

lemma distinct_set_add: "distinct xs \<Longrightarrow> distinct (set_add x xs)"
  by (simp add: set_add_def)

lemma distinct_set_delete: "distinct xs \<Longrightarrow> distinct (set_delete x xs)"
  by (simp add: set_delete_def)

text \<open>
  C9. On a connection the socket is registered, the snapshot of the whole store goes to
  that socket alone, and then the new number of observers goes to every registered
  observer, the new one among them. On a disconnection the socket is deregistered and the
  new number goes to the observers that remain. Neither handler touches the store.
\<close>

theorem connection_disconnect_effects:
  assumes "distinct (connectedClients s)"
  shows "connectedClients (connection sid s) = set_add sid (connectedClients s)
    \<and> set (connectedClients (connection sid s)) = insert sid (set (connectedClients s))
    \<and> sharedContent (connection sid s) = sharedContent s
    \<and> effects (connection sid s) = effects s @
        [SocketEmit sid (InitialContent (map_values (sharedContent s))),
         IoEmit (connectedClients (connection sid s))
           (ClientCount (card (insert sid (set (connectedClients s)))))]
    \<and> connectedClients (disconnect sid s) = set_delete sid (connectedClients s)
    \<and> set (connectedClients (disconnect sid s)) = set (connectedClients s) - {sid}
    \<and> sharedContent (disconnect sid s) = sharedContent s
    \<and> effects (disconnect sid s) = effects s @
        [IoEmit (connectedClients (disconnect sid s))
           (ClientCount (card (set (connectedClients s) - {sid})))]"
proof -
  have a: "set (set_add sid (connectedClients s)) = insert sid (set (connectedClients s))"
    by (auto simp: set_add_def)
  have d: "set (set_delete sid (connectedClients s)) = set (connectedClients s) - {sid}"
    by (auto simp: set_delete_def)
  have la: "length (set_add sid (connectedClients s)) = card (insert sid (set (connectedClients s)))"
    using distinct_card [OF distinct_set_add [OF assms, of sid]] a by simp
  have ld: "length (set_delete sid (connectedClients s)) = card (set (connectedClients s) - {sid})"
    using distinct_card [OF distinct_set_delete [OF assms, of sid]] d by simp
  show ?thesis
    using a d la ld
    by (simp add: connection_def disconnect_def io_emit_def socket_emit_def Let_def)
qed

theorem connection_disconnect_effects_witness:
  "distinct (connectedClients sample_state)
   \<and> connectedClients (connection (js ''c2'') sample_state) = [js ''c1'', js ''c2'']
   \<and> effects (connection (js ''c2'') sample_state) =
       [SocketEmit (js ''c2'') (InitialContent [sample_text, sample_file]),
        IoEmit [js ''c1'', js ''c2''] (ClientCount 2)]
   \<and> connectedClients (disconnect (js ''c1'') sample_state) = []
   \<and> effects (disconnect (js ''c1'') sample_state) = [IoEmit [] (ClientCount 0)]"
proof -
  have d: "distinct (connectedClients sample_state)"
    by (simp add: sample_state_def)
  have c2: "js ''c2'' \<noteq> js ''c1''" by (simp add: js_def)
  show ?thesis
    using d c2 connection_disconnect_effects [OF d, of "js ''c2''"]
      connection_disconnect_effects [OF d, of "js ''c1''"]
    by (simp add: sample_state_def set_add_def set_delete_def map_values_def)
qed

lemma connection_effects:
  "effects (connection sid s) = effects s @
     [SocketEmit sid (InitialContent (map_values (sharedContent s))),
      IoEmit (set_add sid (connectedClients s))
        (ClientCount (length (set_add sid (connectedClients s))))]"
  by (simp add: connection_def io_emit_def socket_emit_def Let_def)

lemma upload_state:
  "snd (upload now1 now2 uuid (Some f) s) =
     io_emit (NewContent (FileData uuid (originalname f) (file_mimetype f) (file_size f) None
                now2 (now1 + 600000) (js ''/api/download/'' @ uuid)))
       (store_set uuid (FileData uuid (originalname f) (file_mimetype f) (file_size f)
                (Some (file_buffer f)) now2 (now1 + 600000) (js ''/api/download/'' @ uuid)) s)"
  by (simp add: upload_def Let_def)

subsection \<open>What the observers are sent\<close>

text \<open>
  The broadcast of an upload is the stored object without its \<open>buffer\<close>, every other
  field as stored.
\<close>

lemma upload_broadcast_without_buffer:
  "effects (snd (upload now1 now2 uuid (Some f) s)) = effects s @
     [MapSet uuid,
      IoEmit (connectedClients s)
        (NewContent (FileData uuid (originalname f) (file_mimetype f) (file_size f) None
           now2 (now1 + 600000) (js ''/api/download/'' @ uuid)))]"
  by (simp add: upload_state io_emit_def store_set_def)

text \<open>
  C1. The snapshot sent on a connection is \<open>Array.from(sharedContent.values())\<close>: the
  stored objects themselves. After one upload of three bytes, the first observer to
  connect is sent those bytes in \<open>initialContent\<close>, although the broadcast of the same
  upload carried the entry without them.
\<close>

theorem initial_content_carries_buffer:
  "effects (connection (js ''c2'')
      (snd (upload 600010 600010 (js ''f1'') (Some sample_upload) initial_state))) =
     [MapSet (js ''f1''),
      IoEmit [] (NewContent (FileData (js ''f1'') (js ''a.txt'') (js ''text/plain'') 3 None
                   600010 1200010 (js ''/api/download/f1''))),
      SocketEmit (js ''c2'') (InitialContent
        [FileData (js ''f1'') (js ''a.txt'') (js ''text/plain'') 3 (Some [1, 2, 3])
           600010 1200010 (js ''/api/download/f1'')]),
      IoEmit [js ''c2''] (ClientCount 1)]"
  by (simp add: connection_effects upload_state io_emit_def store_set_def initial_state_def
      sample_upload_def set_add_def map_values_def js_def)

text \<open>
  C2 (as amended). The snapshot of a connection is every entry that resides in the store,
  expired or not: nothing is filtered when it is read. Entries with \<open>expiresAt < now\<close>
  are absent from the store, and so from later snapshots, once a cleanup at \<open>now\<close> has run.
\<close>

theorem snapshot_unfiltered_until_cleanup:
  "effects (connection sid s) ! length (effects s) =
     SocketEmit sid (InitialContent (map_values (sharedContent s)))
   \<and> (\<forall>e \<in> set (map_values (sharedContent (cleanup now s))). now \<le> expiresAt e)"
proof -
  have "expired_keys now (sharedContent (cleanup now s)) = []"
    by (rule expired_keys_after_cleanup)
  then have "\<forall>e \<in> set (map_values (sharedContent (cleanup now s))). now \<le> expiresAt e"
    by (force simp: expired_keys_def map_values_def filter_empty_conv)
  then show ?thesis by (simp add: connection_effects)
qed

theorem snapshot_unfiltered_until_cleanup_witness:
  "effects (connection (js ''c2'') sample_state) ! length (effects sample_state) =
     SocketEmit (js ''c2'') (InitialContent [sample_text, sample_file])
   \<and> map_values (sharedContent (cleanup 600001 sample_state)) = [sample_file]
   \<and> 600001 \<le> expiresAt sample_file"
proof -
  have "sample_file \<in> set (map_values (sharedContent (cleanup 600001 sample_state)))"
    by (simp add: cleanup_def sample_state_def sample_text_def sample_file_def map_values_def
        io_emit_def store_delete_def js_def)
  then show ?thesis
    using snapshot_unfiltered_until_cleanup [of "js ''c2''" sample_state 600001]
    by (simp add: cleanup_def sample_state_def sample_text_def sample_file_def map_values_def
        io_emit_def store_delete_def js_def)
qed

text \<open>
  The text entry expired at 600000 and no cleanup has run since: an observer that connects
  at any later time, 700000 say, is sent it.
\<close>

theorem snapshot_expired_counterexample:
  "expiresAt sample_text \<le> 700000
   \<and> effects (connection (js ''c2'') sample_state) =
       [SocketEmit (js ''c2'') (InitialContent [sample_text, sample_file]),
        IoEmit [js ''c1'', js ''c2''] (ClientCount 2)]"
  by (simp add: connection_effects sample_state_def sample_text_def set_add_def map_values_def
      js_def)

lemma share_text_success:
  assumes "share_text marked now1 now2 uuid text_field ty s = (ShareJson cid ex, s')"
  shows "\<exists>text p. text_field = Some text \<and> cid = uuid \<and> ex = now1 + 600000 \<and>
     s' = io_emit (NewContent (TextData uuid text p (extract_url text) now2 (now1 + 600000)))
        (store_set uuid (TextData uuid text p (extract_url text) now2 (now1 + 600000)) s)"
  using assms by (auto simp: share_text_def Let_def split: option.splits if_splits)

lemma connection_snapshot:
  "effects (connection sid s) ! length (effects s) =
     SocketEmit sid (InitialContent (map_values (sharedContent s)))"
  by (simp add: connection_effects)

text \<open>
  The snapshot lists the stored entries in insertion order: an entry inserted under a new
  id by an upload or a text share is the last one of the snapshot sent to the next
  observer.
\<close>

lemma snapshot_in_insertion_order:
  assumes "uuid \<notin> set (map_keys (sharedContent s))"
    and "upload now1 now2 uuid (Some f) s = (r1, s1)"
    and "share_text marked now1 now2 uuid (Some text) ty s = (ShareJson cid ex, s2)"
  shows "effects (connection sid s1) ! length (effects s1) =
         SocketEmit sid (InitialContent (map_values (sharedContent s) @
           [FileData uuid (originalname f) (file_mimetype f) (file_size f)
              (Some (file_buffer f)) now2 (now1 + 600000) (js ''/api/download/'' @ uuid)]))
    \<and> (\<exists>p. effects (connection sid s2) ! length (effects s2) =
         SocketEmit sid (InitialContent (map_values (sharedContent s) @
           [TextData uuid text p (extract_url text) now2 (now1 + 600000)])))"
proof -
  have fresh: "\<And>v. map_values (map_set uuid v (sharedContent s)) = map_values (sharedContent s) @ [v]"
    using map_set_fresh [OF assms(1)] by (simp add: map_values_def)
  have s1: "s1 = snd (upload now1 now2 uuid (Some f) s)"
    using assms(2) by simp
  have up: "effects (connection sid s1) ! length (effects s1) =
         SocketEmit sid (InitialContent (map_values (sharedContent s) @
           [FileData uuid (originalname f) (file_mimetype f) (file_size f)
              (Some (file_buffer f)) now2 (now1 + 600000) (js ''/api/download/'' @ uuid)]))"
    unfolding connection_snapshot s1
    by (simp add: upload_state io_emit_def store_set_def fresh)
  from share_text_success [OF assms(3)] obtain p where
    s2: "s2 = io_emit (NewContent (TextData uuid text p (extract_url text) now2 (now1 + 600000)))
        (store_set uuid (TextData uuid text p (extract_url text) now2 (now1 + 600000)) s)"
    by blast
  have "effects (connection sid s2) ! length (effects s2) =
         SocketEmit sid (InitialContent (map_values (sharedContent s) @
           [TextData uuid text p (extract_url text) now2 (now1 + 600000)]))"
    unfolding connection_snapshot
    by (simp add: s2 io_emit_def store_set_def fresh)
  with up show ?thesis by blast
qed

text \<open>
  C3. The most recent entry is to come first in the snapshot. It comes last: a text is
  shared at time 0 and a file uploaded at time 10, both live for ten minutes, and the
  observer that connects next is sent the text first and the file last. The client
  takes the head of its list for the newest entry (it puts each \<open>newContent\<close> in front
  and shows the first three as recent activity), so an observer that was connected all
  along holds the two entries in the opposite order.
\<close>

theorem snapshot_oldest_first:
  "effects (run Some
      [ShareText 0 0 (js ''t1'') (Some (js ''hi'')) None,
       Upload 10 10 (js ''f1'') (Some sample_upload),
       Connection (js ''c2'')] initial_state) ! 4 =
     SocketEmit (js ''c2'') (InitialContent
       [sample_text,
        FileData (js ''f1'') (js ''a.txt'') (js ''text/plain'') 3 (Some [1, 2, 3]) 10 600010
          (js ''/api/download/f1'')])
   \<and> 10 < expiresAt sample_text
   \<and> 10 < expiresAt (FileData (js ''f1'') (js ''a.txt'') (js ''text/plain'') 3 (Some [1, 2, 3])
         10 600010 (js ''/api/download/f1''))
   \<and> sharedAt sample_text <
       uploadedAt (FileData (js ''f1'') (js ''a.txt'') (js ''text/plain'') 3 (Some [1, 2, 3])
         10 600010 (js ''/api/download/f1''))"
proof -
  have ex: "extract_url (js ''hi'') = empty_metadata"
    by (simp add: extract_url_def string_match_def url_at_def strip_prefix_def js_def)
  have sh: "snd (share_text Some 0 0 (js ''t1'') (Some (js ''hi'')) None initial_state) =
      \<lparr>sharedContent = [(js ''t1'', sample_text)], connectedClients = [],
       effects = [MapSet (js ''t1''), IoEmit [] (NewContent sample_text)]\<rparr>"
    by (simp add: share_text_def ex Let_def)
      (simp add: trim_def is_space_def store_set_def io_emit_def initial_state_def js_def
        sample_text_def)
  show ?thesis
    by (simp add: sh connection_effects upload_state)
      (simp add: store_set_def io_emit_def sample_upload_def sample_text_def
        map_values_def js_def)
qed

subsection \<open>Order of store writes and broadcasts\<close>

lemma written_before_any: "written_before None es \<Longrightarrow> written_before p es"
  by (cases es) auto

lemma written_before_append:
  "written_before p xs \<Longrightarrow> written_before None ys \<Longrightarrow> written_before p (xs @ ys)"
  by (induction xs arbitrary: p) (auto intro: written_before_any)

lemma written_before_nth:
  "written_before p es \<Longrightarrow> j < length es \<Longrightarrow> announced (es ! j) = Some w \<Longrightarrow>
     (if j = 0 then p = Some w else es ! (j - 1) = w)"
proof (induction es arbitrary: p j)
  case Nil
  then show ?case by simp
next
  case (Cons e es)
  show ?case
  proof (cases j)
    case 0
    with Cons.prems show ?thesis by auto
  next
    case (Suc i)
    with Cons.prems have "written_before (Some e) es" "i < length es" "announced (es ! i) = Some w"
      by auto
    from Cons.IH [OF this] Suc show ?thesis by (cases i) auto
  qed
qed

lemma replay_keys_append: "replay_keys (xs @ ys) K = replay_keys ys (replay_keys xs K)"
  by (induction xs K rule: replay_keys.induct) auto

lemma keys_map_set: "set (map_keys (map_set k v m)) = insert k (set (map_keys m))"
  unfolding map_keys_def by (induction k v m rule: map_set.induct) auto

lemma keys_map_delete: "set (map_keys (map_delete k m)) = set (map_keys m) - {k}"
  unfolding map_keys_def by (induction k m rule: map_delete.induct) auto

lemma extendsI:
  assumes "effects s' = effects s @ d" and "written_before None d"
    and "list_all socket_emits_snapshot d"
    and "set (map_keys (sharedContent s')) = replay_keys d (set (map_keys (sharedContent s)))"
  shows "extends s s'"
  using assms by (simp add: extends_def)

lemma extendsE:
  assumes "extends s s'"
  obtains d where "effects s' = effects s @ d" and "written_before None d"
    and "list_all socket_emits_snapshot d"
    and "set (map_keys (sharedContent s')) = replay_keys d (set (map_keys (sharedContent s)))"
  using assms unfolding extends_def Let_def by blast

lemma extends_refl: "extends s s"
  by (rule extendsI [of _ _ "[]"]) simp_all

lemma extends_trans:
  assumes "extends s s'" and "extends s' s''"
  shows "extends s s''"
proof -
  from assms(1) obtain d where d: "effects s' = effects s @ d" "written_before None d"
    "list_all socket_emits_snapshot d"
    "set (map_keys (sharedContent s')) = replay_keys d (set (map_keys (sharedContent s)))"
    by (rule extendsE)
  from assms(2) obtain d' where d': "effects s'' = effects s' @ d'" "written_before None d'"
    "list_all socket_emits_snapshot d'"
    "set (map_keys (sharedContent s'')) = replay_keys d' (set (map_keys (sharedContent s')))"
    by (rule extendsE)
  show ?thesis
    using d d' by (intro extendsI [of _ _ "d @ d'"])
      (simp_all add: written_before_append replay_keys_append)
qed

lemma extends_removal:
  "extends s (io_emit (ContentRemoved k) (store_delete k s))"
  by (rule extendsI [of _ _ "[MapDelete k, IoEmit (connectedClients s) (ContentRemoved k)]"])
    (simp_all add: io_emit_def store_delete_def keys_map_delete)

lemma extends_cleanup_loop: "extends s (cleanup_loop now es s)"
proof (induction es arbitrary: s)
  case Nil
  then show ?case by (simp add: extends_refl)
next
  case (Cons p es)
  obtain k c where p: "p = (k, c)" by (cases p)
  show ?case
    using p Cons.IH [of s] Cons.IH [of "io_emit (ContentRemoved k) (store_delete k s)"]
      extends_removal [of s k]
    by (auto intro: extends_trans)
qed

lemma extends_insert:
  "id' c = k \<Longrightarrow> extends s (io_emit (NewContent c) (store_set k v s))"
  by (rule extendsI [of _ _ "[MapSet k, IoEmit (connectedClients s) (NewContent c)]"])
    (simp_all add: io_emit_def store_set_def keys_map_set)

lemma extends_upload: "extends s (snd (upload now1 now2 uuid file s))"
proof (cases "file")
  case None
  then show ?thesis by (simp add: upload_def extends_refl)
next
  case (Some f)
  then show ?thesis by (simp add: upload_state extends_insert)
qed

lemma extends_share_text: "extends s (snd (share_text marked now1 now2 uuid text_field ty s))"
  by (auto simp: share_text_def Let_def extends_refl extends_insert split: option.splits)

lemma extends_download: "extends s (snd (download res_set now fileId s))"
proof -
  have "extends s (store_delete fileId s)"
    by (rule extendsI [of _ _ "[MapDelete fileId]"])
      (simp_all add: store_delete_def keys_map_delete)
  then show ?thesis
    by (auto simp: download_def extends_refl split: option.splits)
qed

lemma extends_connection: "extends s (connection sid s)"
  by (rule extendsI [of _ _ "[SocketEmit sid (InitialContent (map_values (sharedContent s))),
      IoEmit (set_add sid (connectedClients s))
        (ClientCount (length (set_add sid (connectedClients s))))]"])
    (simp_all add: connection_def io_emit_def socket_emit_def Let_def)

lemma extends_disconnect: "extends s (disconnect sid s)"
  by (rule extendsI [of _ _ "[IoEmit (set_delete sid (connectedClients s))
        (ClientCount (length (set_delete sid (connectedClients s))))]"])
    (simp_all add: disconnect_def io_emit_def Let_def)

lemma extends_handle: "extends s (handle marked r s)"
  by (cases r)
    (simp_all add: extends_upload extends_share_text extends_download extends_connection
      extends_disconnect extends_cleanup_loop cleanup_def)

lemma extends_run: "extends s (run marked rs s)"
  by (induction rs arbitrary: s) (auto intro: extends_refl extends_trans extends_handle)

text \<open>
  C6. In every run of the server, a \<open>newContent\<close> broadcast comes directly after the
  \<open>sharedContent.set\<close> of the entry it carries, and a \<open>contentRemoved\<close> broadcast directly
  after the \<open>sharedContent.delete\<close> of its id; a single socket is only ever sent snapshots.
  The recorded writes are the writes that happened: replayed on the keys of the first
  store they give the keys of the last.
\<close>

theorem store_write_precedes_broadcast:
  assumes "effects s = []" and "tr = effects (run marked rs s)" and "j < length tr"
  shows "(\<forall>cs c. tr ! j = IoEmit cs (NewContent c) \<longrightarrow> 0 < j \<and> tr ! (j - 1) = MapSet (id' c))
    \<and> (\<forall>cs k. tr ! j = IoEmit cs (ContentRemoved k) \<longrightarrow> 0 < j \<and> tr ! (j - 1) = MapDelete k)
    \<and> (\<forall>sid ev. tr ! j = SocketEmit sid ev \<longrightarrow> (\<exists>l. ev = InitialContent l))
    \<and> set (map_keys (sharedContent (run marked rs s))) =
        replay_keys tr (set (map_keys (sharedContent s)))"
proof -
  from extends_run [of s marked rs] obtain d where
    d: "effects (run marked rs s) = effects s @ d" "written_before None d"
      "list_all socket_emits_snapshot d"
      "set (map_keys (sharedContent (run marked rs s))) =
         replay_keys d (set (map_keys (sharedContent s)))"
    by (rule extendsE)
  from d(1) assms(1,2) have "d = tr" by simp
  with d have wb: "written_before None tr" and so: "list_all socket_emits_snapshot tr"
    and keys: "set (map_keys (sharedContent (run marked rs s))) =
        replay_keys tr (set (map_keys (sharedContent s)))"
    by simp_all
  have nth: "0 < j \<and> tr ! (j - 1) = w" if "announced (tr ! j) = Some w" for w
    using written_before_nth [OF wb assms(3) that] by (auto split: if_splits)
  have a: "0 < j \<and> tr ! (j - 1) = MapSet (id' c)" if "tr ! j = IoEmit cs (NewContent c)" for cs c
    using nth [of "MapSet (id' c)"] that by simp
  have b: "0 < j \<and> tr ! (j - 1) = MapDelete k" if "tr ! j = IoEmit cs (ContentRemoved k)" for cs k
    using nth [of "MapDelete k"] that by simp
  have c: "\<exists>l. ev = InitialContent l" if "tr ! j = SocketEmit sid ev" for sid ev
  proof -
    from so assms(3) have "socket_emits_snapshot (tr ! j)"
      by (simp add: list_all_length)
    with that show ?thesis by (cases ev) auto
  qed
  from a b c keys show ?thesis by blast
qed

theorem store_write_precedes_broadcast_witness:
  "effects initial_state = []
   \<and> effects (run Some [Upload 600010 600010 (js ''f1'') (Some sample_upload),
         CleanupTick 1200011] initial_state) =
       [MapSet (js ''f1''), IoEmit [] (NewContent (delete_buffer sample_file)),
        MapDelete (js ''f1''), IoEmit [] (ContentRemoved (js ''f1''))]
   \<and> (3::nat) < length [MapSet (js ''f1''), IoEmit [] (NewContent (delete_buffer sample_file)),
        MapDelete (js ''f1''), IoEmit [] (ContentRemoved (js ''f1''))]
   \<and> [MapSet (js ''f1''), IoEmit [] (NewContent (delete_buffer sample_file)),
        MapDelete (js ''f1''), IoEmit [] (ContentRemoved (js ''f1''))] ! (3 - 1) =
       MapDelete (js ''f1'')
   \<and> [MapSet (js ''f1''), IoEmit [] (NewContent (delete_buffer sample_file)),
        MapDelete (js ''f1''), IoEmit [] (ContentRemoved (js ''f1''))] ! (1 - 1) =
       MapSet (id' (delete_buffer sample_file))
   \<and> set (map_keys (sharedContent (run Some [Upload 600010 600010 (js ''f1'') (Some sample_upload),
         CleanupTick 1200011] initial_state))) = {}"
proof -
  let ?rs = "[Upload 600010 600010 (js ''f1'') (Some sample_upload), CleanupTick 1200011]"
  let ?tr = "[MapSet (js ''f1''), IoEmit [] (NewContent (delete_buffer sample_file)),
        MapDelete (js ''f1''), IoEmit [] (ContentRemoved (js ''f1''))]"
  have e: "effects initial_state = []"
    by (simp add: initial_state_def)
  have tr: "?tr = effects (run Some ?rs initial_state)"
    by (simp add: upload_state cleanup_def)
      (simp add: store_set_def store_delete_def io_emit_def initial_state_def sample_upload_def
        sample_file_def js_def)
  have l3: "(3::nat) < length ?tr" and l1: "(1::nat) < length ?tr"
    by simp_all
  from store_write_precedes_broadcast [OF e tr l3]
  have a: "?tr ! (3 - 1) = MapDelete (js ''f1'')"
    and k: "set (map_keys (sharedContent (run Some ?rs initial_state))) = {}"
    by (simp_all add: initial_state_def map_keys_def)
  from store_write_precedes_broadcast [OF e tr l1]
  have b: "?tr ! (1 - 1) = MapSet (id' (delete_buffer sample_file))"
    by simp
  from e tr [symmetric] l3 a b k show ?thesis by blast
qed

subsection \<open>Download and expiry\<close>




text \<open>
  C10. The download route serves file entries only: when the entry stored under the id
  is a text entry, the answer is 404 "File not found" whatever the time, live or not, and
  the state is left as it was.
\<close>

theorem download_text_entry_not_found:
  assumes "map_get (sharedContent s) fileId = Some e" and "type' e = Text"
  shows "download res_set now fileId s = (ErrorJson 404 ''File not found'', s)"
  using assms by (simp add: download_def)

theorem download_text_entry_not_found_witness:
  "map_get (sharedContent sample_state) (js ''t1'') = Some sample_text
   \<and> type' sample_text = Text
   \<and> download sample_res_set 5 (js ''t1'') sample_state =
       (ErrorJson 404 ''File not found'', sample_state)"
proof -
  have g: "map_get (sharedContent sample_state) (js ''t1'') = Some sample_text"
    by (simp add: sample_state_def)
  have t: "type' sample_text = Text"
    by (simp add: sample_text_def)
  show ?thesis
    using g t download_text_entry_not_found [OF g t, of sample_res_set 5] by simp
qed

subsection \<open>The link scan of a shared text\<close>

lemma find_append_cases:
  "find P (xs @ ys) = (case find P xs of Some x \<Rightarrow> Some x | None \<Rightarrow> find P ys)"
  by (induction xs) auto

lemma find_map_comp: "find P (map f xs) = map_option f (find (P \<circ> f) xs)"
  by (induction xs) auto

text \<open>The longest prefix that satisfies a predicate.\<close>

lemma find_longest_prefix:
  assumes "prefix u cs" and "P u" and "\<And>v. prefix v cs \<Longrightarrow> P v \<Longrightarrow> length v \<le> length u"
  shows "find P (rev (prefixes cs)) = Some u"
  using assms
proof (induction cs arbitrary: P u)
  case Nil
  then show ?case by simp
next
  case (Cons x xs)
  show ?case
  proof (cases u)
    case Nil
    have "find (P \<circ> (#) x) (rev (prefixes xs)) = None"
    proof (rule ccontr)
      assume "find (P \<circ> (#) x) (rev (prefixes xs)) \<noteq> None"
      then obtain v where "prefix v xs" "P (x # v)"
        by (auto simp: find_None_iff)
      with Cons.prems(3) [of "x # v"] Nil show False by simp
    qed
    with Nil Cons.prems(2) show ?thesis
      by (simp add: rev_map find_append_cases find_map_comp)
  next
    case (Cons y u')
    with Cons.prems(1) have y: "y = x" and pu: "prefix u' xs" by auto
    have "find (P \<circ> (#) x) (rev (prefixes xs)) = Some u'"
    proof (rule Cons.IH [OF pu])
      show "(P \<circ> (#) x) u'" using Cons.prems(2) Cons y by simp
      show "length v \<le> length u'" if "prefix v xs" "(P \<circ> (#) x) v" for v
        using Cons.prems(3) [of "x # v"] that Cons by simp
    qed
    with Cons y show ?thesis
      by (simp add: rev_map find_append_cases find_map_comp)
  qed
qed

lemma find_no_prefix:
  assumes "\<And>v. prefix v cs \<Longrightarrow> \<not> P v"
  shows "find P (rev (prefixes cs)) = None"
  using assms by (auto simp: find_None_iff)

text \<open>What \<open>url_at\<close> computes, by the scheme at the head of the input.\<close>

lemma url_at_http:
  "url_at (js ''http://'' @ r) =
     (if takeWhile (\<lambda>c. \<not> is_space c) r = [] then None
      else Some (js ''http://'' @ takeWhile (\<lambda>c. \<not> is_space c) r))"
  by (simp add: url_at_def url_tail_def strip_prefix_def js_def Let_def)

lemma url_at_https:
  "url_at (js ''https://'' @ r) =
     (if takeWhile (\<lambda>c. \<not> is_space c) r = [] then None
      else Some (js ''https://'' @ takeWhile (\<lambda>c. \<not> is_space c) r))"
  by (simp add: url_at_def url_tail_def strip_prefix_def js_def Let_def)

lemma strip_prefix_Some: "strip_prefix p cs = Some r \<Longrightarrow> cs = p @ r"
  by (auto simp: strip_prefix_def split: if_splits) (metis append_take_drop_id)

lemma url_tail_Some: "url_tail r = Some t \<Longrightarrow> \<exists>r2. r = js ''://'' @ r2"
  by (auto simp: url_tail_def Let_def split: option.splits if_splits dest: strip_prefix_Some)

lemma url_at_Some_scheme:
  assumes "url_at cs = Some u"
  shows "(\<exists>r. cs = js ''http://'' @ r) \<or> (\<exists>r. cs = js ''https://'' @ r)"
proof -
  from assms obtain r where r: "cs = js ''http'' @ r"
    by (auto simp: url_at_def split: option.splits dest: strip_prefix_Some)
  have lit: "js ''http://'' = js ''http'' @ js ''://''"
    "js ''https://'' = js ''http'' @ js ''s'' @ js ''://''"
    by (simp_all add: js_def)
  from assms r show ?thesis
    unfolding lit
    by (auto simp: url_at_def split: option.splits dest!: strip_prefix_Some url_tail_Some)
qed

lemma spec_url_pattern_iff:
  "spec_url_pattern v \<longleftrightarrow>
     (\<exists>t. (v = js ''http://'' @ t \<or> v = js ''https://'' @ t) \<and> t \<noteq> [] \<and>
          (\<forall>c \<in> set t. \<not> is_space c))"
proof
  assume "spec_url_pattern v"
  then consider
      "take 7 v = js ''http://''" "drop 7 v \<noteq> []" "\<forall>c \<in> set (drop 7 v). \<not> is_space c"
    | "take 8 v = js ''https://''" "drop 8 v \<noteq> []" "\<forall>c \<in> set (drop 8 v). \<not> is_space c"
    by (auto simp: spec_url_pattern_def list_all_iff)
  then show "\<exists>t. (v = js ''http://'' @ t \<or> v = js ''https://'' @ t) \<and> t \<noteq> [] \<and>
          (\<forall>c \<in> set t. \<not> is_space c)"
  proof cases
    case 1
    then show ?thesis by (intro exI [of _ "drop 7 v"]) (metis append_take_drop_id)
  next
    case 2
    then show ?thesis by (intro exI [of _ "drop 8 v"]) (metis append_take_drop_id)
  qed
next
  assume "\<exists>t. (v = js ''http://'' @ t \<or> v = js ''https://'' @ t) \<and> t \<noteq> [] \<and>
          (\<forall>c \<in> set t. \<not> is_space c)"
  then show "spec_url_pattern v"
    by (auto simp: spec_url_pattern_def list_all_iff js_def)
qed

lemma schemes_differ:
  "\<not> prefix (js ''http://'' @ t) (js ''https://'' @ r)"
  "\<not> prefix (js ''https://'' @ t) (js ''http://'' @ r)"
  by (simp_all add: js_def)

lemma run_prefix:
  assumes "prefix t r" and "\<forall>c \<in> set t. P c"
  shows "prefix t (takeWhile P r)"
proof -
  from assms(1) obtain z where "r = t @ z" by (auto simp: prefix_def)
  with assms(2) show ?thesis by (simp add: takeWhile_append2)
qed

lemma url_at_scheme_longest:
  assumes sch: "sch = js ''http://'' \<or> sch = js ''https://''"
  shows "find spec_url_pattern (rev (prefixes (sch @ r))) =
     (if takeWhile (\<lambda>c. \<not> is_space c) r = [] then None
      else Some (sch @ takeWhile (\<lambda>c. \<not> is_space c) r))"
proof -
  let ?run = "takeWhile (\<lambda>c. \<not> is_space c) r"
  have tail: "\<exists>t. v = sch @ t \<and> t \<noteq> [] \<and> prefix t ?run"
    if "prefix v (sch @ r)" "spec_url_pattern v" for v
  proof -
    from that(2) obtain t where
      t: "v = js ''http://'' @ t \<or> v = js ''https://'' @ t" "t \<noteq> []" "\<forall>c \<in> set t. \<not> is_space c"
      by (auto simp: spec_url_pattern_iff)
    with that(1) sch have v: "v = sch @ t"
      using schemes_differ by metis
    with that(1) have "prefix t r" by simp
    from run_prefix [OF this t(3)] v t(2) show ?thesis by blast
  qed
  show ?thesis
  proof (cases "?run = []")
    case True
    have "find spec_url_pattern (rev (prefixes (sch @ r))) = None"
    proof (rule find_no_prefix)
      fix v assume "prefix v (sch @ r)"
      with tail [of v] True show "\<not> spec_url_pattern v" by auto
    qed
    with True show ?thesis by simp
  next
    case False
    have "find spec_url_pattern (rev (prefixes (sch @ r))) = Some (sch @ ?run)"
    proof (rule find_longest_prefix)
      show "prefix (sch @ ?run) (sch @ r)" by (simp add: takeWhile_is_prefix)
      have "\<forall>c \<in> set ?run. \<not> is_space c" by (auto dest: set_takeWhileD)
      with False sch show "spec_url_pattern (sch @ ?run)"
        by (auto simp: spec_url_pattern_iff)
      show "length v \<le> length (sch @ ?run)"
        if "prefix v (sch @ r)" "spec_url_pattern v" for v
        using tail [OF that] by (auto dest: prefix_length_le)
    qed
    with False show ?thesis by simp
  qed
qed

lemma url_at_longest_prefix: "url_at cs = find spec_url_pattern (rev (prefixes cs))"
proof (cases "(\<exists>r. cs = js ''http://'' @ r) \<or> (\<exists>r. cs = js ''https://'' @ r)")
  case True
  then show ?thesis
    by (auto simp: url_at_http url_at_https url_at_scheme_longest)
next
  case False
  then have "url_at cs = None"
    using url_at_Some_scheme [of cs] by (cases "url_at cs") auto
  moreover have "find spec_url_pattern (rev (prefixes cs)) = None"
  proof (rule find_no_prefix)
    fix v assume "prefix v cs"
    with False show "\<not> spec_url_pattern v"
      by (auto simp: spec_url_pattern_iff prefix_def)
  qed
  ultimately show ?thesis by simp
qed

text \<open>The first element of the global match, along the text.\<close>

lemma string_match_first:
  "map_option hd (string_match text) =
     find spec_url_pattern (concat (map (\<lambda>s. rev (prefixes s)) (rev (suffixes text))))"
proof (induction "text")
  case Nil
  have "\<not> spec_url_pattern []"
    by (simp add: spec_url_pattern_def)
  then show ?case
    by (simp add: string_match_def)
next
  case (Cons c cs)
  show ?case
  proof (cases "url_at (c # cs)")
    case None
    with Cons show ?thesis
      by (simp add: string_match_def Let_def find_append_cases
          url_at_longest_prefix [symmetric] del: prefixes.simps)
  next
    case (Some u)
    then show ?thesis
      by (simp add: string_match_def Let_def find_append_cases
          url_at_longest_prefix [symmetric] del: prefixes.simps)
  qed
qed

lemma extract_url_spec: "extract_url text = spec_link_metadata text"
proof -
  have "spec_first_url text = map_option hd (string_match text)"
    by (simp add: string_match_first spec_first_url_def)
  moreover have "urls \<noteq> []" if "string_match text = Some urls" for urls
    using that by (auto simp: string_match_def Let_def split: if_splits)
  ultimately show ?thesis
    by (cases "string_match text")
      (auto simp: extract_url_def spec_link_metadata_def empty_metadata_def)
qed

text \<open>
  C8. The entry stored by a successful text share holds the raw text and, as metadata,
  the link metadata of the raw text as the specification words it: the first substring
  that is \<open>http://\<close> or \<open>https://\<close> followed by non-white space, extended as far as the
  non-white space goes. Neither the requested type nor the renderer enters it. For the
  text "Check https://example.com now" it is \<open>hasLinks = true\<close> and
  \<open>firstUrl = "https://example.com"\<close>.
\<close>

theorem share_text_link_metadata:
  assumes "share_text marked now1 now2 uuid (Some text) ty s = (ShareJson cid ex, s')"
  shows "(\<exists>p. map_get (sharedContent s') cid =
            Some (TextData cid text p (spec_link_metadata text) now2 ex))
    \<and> spec_link_metadata (js ''Check https://example.com now'') =
        \<lparr>hasLinks = Some True, firstUrl = Some (js ''https://example.com'')\<rparr>"
proof -
  from share_text_success [OF assms] obtain p where
    "cid = uuid" "ex = now1 + 600000"
    "s' = io_emit (NewContent (TextData uuid text p (extract_url text) now2 (now1 + 600000)))
        (store_set uuid (TextData uuid text p (extract_url text) now2 (now1 + 600000)) s)"
    by blast
  then have "map_get (sharedContent s') cid =
      Some (TextData cid text p (spec_link_metadata text) now2 ex)"
    by (simp add: io_emit_def store_set_def map_get_map_set_same extract_url_spec)
  moreover have "extract_url (js ''Check https://example.com now'') =
      \<lparr>hasLinks = Some True, firstUrl = Some (js ''https://example.com'')\<rparr>"
    by (simp add: extract_url_def string_match_def url_at_def url_tail_def strip_prefix_def
        js_def is_space_def empty_metadata_def)
  ultimately show ?thesis
    by (auto simp: extract_url_spec)
qed

theorem share_text_link_metadata_witness:
  "share_text sample_marked 0 1 (js ''t9'') (Some (js ''Check https://example.com now''))
       (Some (js ''markdown'')) initial_state =
     (ShareJson (js ''t9'') 600000,
      \<lparr>sharedContent = [(js ''t9'', TextData (js ''t9'') (js ''Check https://example.com now'')
           (js ''<p>Check https://example.com now</p>'')
           \<lparr>hasLinks = Some True, firstUrl = Some (js ''https://example.com'')\<rparr> 1 600000)],
       connectedClients = [],
       effects = [MapSet (js ''t9''), IoEmit [] (NewContent
          (TextData (js ''t9'') (js ''Check https://example.com now'')
           (js ''<p>Check https://example.com now</p>'')
           \<lparr>hasLinks = Some True, firstUrl = Some (js ''https://example.com'')\<rparr> 1 600000))]\<rparr>)
   \<and> share_text sample_marked 0 1 (js ''t9'') (Some (js ''Check https://example.com now''))
       None initial_state =
     (ShareJson (js ''t9'') 600000,
      \<lparr>sharedContent = [(js ''t9'', TextData (js ''t9'') (js ''Check https://example.com now'')
           (js ''Check https://example.com now'')
           \<lparr>hasLinks = Some True, firstUrl = Some (js ''https://example.com'')\<rparr> 1 600000)],
       connectedClients = [],
       effects = [MapSet (js ''t9''), IoEmit [] (NewContent
          (TextData (js ''t9'') (js ''Check https://example.com now'')
           (js ''Check https://example.com now'')
           \<lparr>hasLinks = Some True, firstUrl = Some (js ''https://example.com'')\<rparr> 1 600000))]\<rparr>)
   \<and> spec_link_metadata (js ''Check https://example.com now'') =
        \<lparr>hasLinks = Some True, firstUrl = Some (js ''https://example.com'')\<rparr>"
proof -
  have ex: "extract_url (js ''Check https://example.com now'') =
      \<lparr>hasLinks = Some True, firstUrl = Some (js ''https://example.com'')\<rparr>"
    by (simp add: extract_url_def string_match_def url_at_def url_tail_def strip_prefix_def
        js_def is_space_def empty_metadata_def)
  have tr: "trim (js ''Check https://example.com now'') \<noteq> []"
    by (simp add: trim_def js_def is_space_def)
  have ne: "js ''Check https://example.com now'' \<noteq> []" "js ''text'' \<noteq> js ''markdown''"
    by (simp_all add: js_def)
  have md: "share_text sample_marked 0 1 (js ''t9'') (Some (js ''Check https://example.com now''))
       (Some (js ''markdown'')) initial_state =
     (ShareJson (js ''t9'') 600000,
      \<lparr>sharedContent = [(js ''t9'', TextData (js ''t9'') (js ''Check https://example.com now'')
           (js ''<p>Check https://example.com now</p>'')
           \<lparr>hasLinks = Some True, firstUrl = Some (js ''https://example.com'')\<rparr> 1 600000)],
       connectedClients = [],
       effects = [MapSet (js ''t9''), IoEmit [] (NewContent
          (TextData (js ''t9'') (js ''Check https://example.com now'')
           (js ''<p>Check https://example.com now</p>'')
           \<lparr>hasLinks = Some True, firstUrl = Some (js ''https://example.com'')\<rparr> 1 600000))]\<rparr>)"
    using tr ne by (simp add: share_text_def ex Let_def)
      (simp add: sample_marked_def store_set_def io_emit_def initial_state_def js_def)
  have pl: "share_text sample_marked 0 1 (js ''t9'') (Some (js ''Check https://example.com now''))
       None initial_state =
     (ShareJson (js ''t9'') 600000,
      \<lparr>sharedContent = [(js ''t9'', TextData (js ''t9'') (js ''Check https://example.com now'')
           (js ''Check https://example.com now'')
           \<lparr>hasLinks = Some True, firstUrl = Some (js ''https://example.com'')\<rparr> 1 600000)],
       connectedClients = [],
       effects = [MapSet (js ''t9''), IoEmit [] (NewContent
          (TextData (js ''t9'') (js ''Check https://example.com now'')
           (js ''Check https://example.com now'')
           \<lparr>hasLinks = Some True, firstUrl = Some (js ''https://example.com'')\<rparr> 1 600000))]\<rparr>)"
    using tr ne by (simp add: share_text_def ex Let_def)
      (simp add: store_set_def io_emit_def initial_state_def)
  from share_text_link_metadata [OF md]
  have sp: "spec_link_metadata (js ''Check https://example.com now'') =
        \<lparr>hasLinks = Some True, firstUrl = Some (js ''https://example.com'')\<rparr>"
    by blast
  from md pl sp show ?thesis by blast
qed

end
